theory Spec2Isabelle
  imports Main
begin

section \<open>JavaScript values and objects\<close>

text \<open>
  The server keeps its state in plain JavaScript values: tool arguments arrive as a parsed
  JSON object typed \<^verbatim>\<open>any\<close>, preferences are an object that \<^verbatim>\<open>Object.assign\<close> may fill
  with arbitrary JSON, and upstream payloads are opaque JSON. They are modelled by one
  datatype. Numbers are the safe integers (counts, page numbers, millisecond clock
  readings); \<^verbatim>\<open>undefined\<close> is a value of its own because reading an absent property
  yields it.
\<close>

datatype jsval = JUndefined | JNull | JBool bool | JNum int | JStr string
  | JArr "jsval list" | JObj "(string \<times> jsval) list"

text \<open>
  An object is the list of its own properties in the order in which they were created.
\<close>

type_synonym jsobj = "(string \<times> jsval) list"

text \<open>Truthiness, as used by \<^verbatim>\<open>||\<close>, \<^verbatim>\<open>!\<close> and \<^verbatim>\<open>if\<close>.\<close>

fun truthy :: "jsval \<Rightarrow> bool" where
  "truthy JUndefined = False"
| "truthy JNull = False"
| "truthy (JBool b) = b"
| "truthy (JNum n) = (n \<noteq> 0)"
| "truthy (JStr s) = (s \<noteq> [])"
| "truthy (JArr xs) = True"
| "truthy (JObj kvs) = True"

definition js_or :: "jsval \<Rightarrow> jsval \<Rightarrow> jsval" where
  "js_or a b = (if truthy a then a else b)"

definition typeof_number :: "jsval \<Rightarrow> bool" where
  "typeof_number v = (case v of JNum n \<Rightarrow> True | _ \<Rightarrow> False)"

subsection \<open>Own properties and their enumeration order\<close>

text \<open>
  Reading a property that the object does not own gives \<^verbatim>\<open>undefined\<close> (the names read
  through \<open>obj_get\<close> below are fixed field names, none of them inherited from
  \<^verbatim>\<open>Object.prototype\<close>). Writing keeps the position of an existing property and appends
  a new one.
\<close>

definition obj_get :: "(string \<times> jsval) list \<Rightarrow> string \<Rightarrow> jsval" where
  "obj_get kvs k = (case map_of kvs k of None \<Rightarrow> JUndefined | Some v \<Rightarrow> v)"

definition has_own :: "(string \<times> 'a) list \<Rightarrow> string \<Rightarrow> bool" where
  "has_own kvs k = (map_of kvs k \<noteq> None)"

fun obj_set :: "(string \<times> 'a) list \<Rightarrow> string \<Rightarrow> 'a \<Rightarrow> (string \<times> 'a) list" where
  "obj_set [] k v = [(k, v)]"
| "obj_set ((k', v') # kvs) k v =
     (if k' = k then (k, v) # kvs else (k', v') # obj_set kvs k v)"

text \<open>
  Enumeration (\<^verbatim>\<open>Object.entries\<close>, object spread, \<^verbatim>\<open>JSON.stringify\<close>) visits the
  properties whose name is an array index first, in ascending numeric order, and then
  the remaining string-named properties in creation order. An array index is the
  canonical decimal spelling of an integer between 0 and 2^32 - 2.
\<close>

definition is_digit :: "char \<Rightarrow> bool" where
  "is_digit c = (c \<in> set ''0123456789'')"

definition digits_value :: "string \<Rightarrow> int" where
  "digits_value s = foldl (\<lambda>a c. 10 * a + (of_char c - 48)) 0 s"

definition is_array_index :: "string \<Rightarrow> bool" where
  "is_array_index s =
     (case s of
        [] \<Rightarrow> False
      | c # cs \<Rightarrow> list_all is_digit s \<and> (if c = CHR ''0'' then cs = [] else True)
                 \<and> length s \<le> 10 \<and> digits_value s \<le> 4294967294)"

definition own_entries :: "(string \<times> 'a) list \<Rightarrow> (string \<times> 'a) list" where
  "own_entries kvs =
     sort_key (\<lambda>kv. digits_value (fst kv)) (filter (\<lambda>kv. is_array_index (fst kv)) kvs)
     @ filter (\<lambda>kv. \<not> is_array_index (fst kv)) kvs"

text \<open>
  Object spread \<^verbatim>\<open>{ ...target's literal properties, ...src }\<close>: the own properties of
  \<open>src\<close> are written over \<open>target\<close> in enumeration order.
\<close>

definition obj_spread :: "(string \<times> 'a) list \<Rightarrow> (string \<times> 'a) list \<Rightarrow> (string \<times> 'a) list" where
  "obj_spread target src = foldl (\<lambda>acc kv. obj_set acc (fst kv) (snd kv)) target (own_entries src)"

section \<open>Search history\<close>

text \<open>
  \<^verbatim>\<open>recentSearches: Array<{ query: SearchParams; timestamp: Date; resultCount: number }>\<close>.
  The reading of the clock taken by \<^verbatim>\<open>new Date()\<close> is an argument of every operation
  that takes one. The count is whatever \<^verbatim>\<open>result.total_results || 0\<close> evaluated to.
\<close>

record search_record =
  query :: jsobj
  searched_at :: int
  resultCount :: jsval

text \<open>\<^verbatim>\<open>xs.slice(-k)\<close> for a positive \<open>k\<close>: the last \<open>k\<close> elements, or all of them.\<close>

definition slice_last :: "nat \<Rightarrow> 'a list \<Rightarrow> 'a list" where
  "slice_last k xs = drop (length xs - k) xs"

definition new_record :: "jsobj \<Rightarrow> jsval \<Rightarrow> int \<Rightarrow> search_record" where
  "new_record q n now = \<lparr>query = obj_spread [] q, searched_at = now, resultCount = n\<rparr>"

definition addToSearchHistory ::
  "search_record list \<Rightarrow> jsobj \<Rightarrow> jsval \<Rightarrow> int \<Rightarrow> search_record list" where
  "addToSearchHistory recentSearches q n now =
     (let pushed = recentSearches @ [new_record q n now]
      in if length pushed > 100 then slice_last 100 pushed else pushed)"

text \<open>A run of searches, each recorded in turn.\<close>

definition record_all ::
  "search_record list \<Rightarrow> (jsobj \<times> jsval \<times> int) list \<Rightarrow> search_record list" where
  "record_all recentSearches es =
     foldl (\<lambda>h e. addToSearchHistory h (fst e) (fst (snd e)) (snd (snd e))) recentSearches es"

definition record_of :: "jsobj \<times> jsval \<times> int \<Rightarrow> search_record" where
  "record_of e = new_record (fst e) (fst (snd e)) (snd (snd e))"

section \<open>Result cache\<close>

text \<open>
  \<^verbatim>\<open>cache: Map<string, { data: any; timestamp: Date; ttl: number }>\<close>. A \<^verbatim>\<open>Map\<close>
  keeps its keys in insertion order and holds each key once; it is modelled by an
  association list whose keys are distinct. \<^verbatim>\<open>set\<close> on a present key replaces the value
  in place, on a new key it appends.
\<close>

record cache_entry =
  data :: jsval
  timestamp :: int
  ttl :: int

type_synonym cache = "(string \<times> cache_entry) list"

definition wf_cache :: "cache \<Rightarrow> bool" where
  "wf_cache c = distinct (map fst c)"

definition Map_get :: "cache \<Rightarrow> string \<Rightarrow> cache_entry option" where
  "Map_get c k = map_of c k"

definition Map_set :: "cache \<Rightarrow> string \<Rightarrow> cache_entry \<Rightarrow> cache" where
  "Map_set c k e = obj_set c k e"

definition Map_delete :: "cache \<Rightarrow> string \<Rightarrow> cache" where
  "Map_delete c k = filter (\<lambda>kv. fst kv \<noteq> k) c"

definition Map_size :: "cache \<Rightarrow> nat" where
  "Map_size c = length c"

text \<open>The test \<^verbatim>\<open>now.getTime() - entry.timestamp.getTime() > entry.ttl\<close>.\<close>

definition is_expired :: "cache_entry \<Rightarrow> int \<Rightarrow> bool" where
  "is_expired e now = (now - timestamp e > ttl e)"

text \<open>
  \<^verbatim>\<open>getCachedResult(key)\<close> returns \<^verbatim>\<open>null\<close> for a miss and the stored payload for a
  hit; the cache after the call is the second component.
\<close>

definition getCachedResult :: "cache \<Rightarrow> string \<Rightarrow> int \<Rightarrow> jsval \<times> cache" where
  "getCachedResult c key now =
     (case Map_get c key of
        None \<Rightarrow> (JNull, c)
      | Some entry \<Rightarrow>
          if is_expired entry now then (JNull, Map_delete c key) else (data entry, c))"

text \<open>
  \<^verbatim>\<open>cleanupExpiredCache\<close> first collects the keys of the expired entries and then deletes
  them one by one.
\<close>

definition cleanupExpiredCache :: "cache \<Rightarrow> int \<Rightarrow> cache" where
  "cleanupExpiredCache c now =
     (let toDelete = map fst (filter (\<lambda>kv. is_expired (snd kv) now) c)
      in foldl Map_delete c toDelete)"

text \<open>
  \<^verbatim>\<open>setCachedResult(key, data, ttl = 300000)\<close>: an omitted third argument is \<open>None\<close>.
  The entry is stamped with one reading of the clock, and the sweep, when it runs, takes
  a second reading.
\<close>

definition default_ttl :: "int option \<Rightarrow> int" where
  "default_ttl t = (case t of None \<Rightarrow> 300000 | Some x \<Rightarrow> x)"

definition setCachedResult ::
  "cache \<Rightarrow> string \<Rightarrow> jsval \<Rightarrow> int option \<Rightarrow> int \<Rightarrow> int \<Rightarrow> cache" where
  "setCachedResult c key d t stored_at sweep_at =
     (let c' = Map_set c key \<lparr>data = d, timestamp = stored_at, ttl = default_ttl t\<rparr>
      in if Map_size c' > 100 then cleanupExpiredCache c' sweep_at else c')"

section \<open>Serialisation and the cache key\<close>

text \<open>Decimal rendering of an integer, as \<^verbatim>\<open>Number.prototype.toString\<close> gives it.\<close>

text \<open>The digit for a value below 16.\<close>

definition digit_char :: "nat \<Rightarrow> char" where
  "digit_char d = ''0123456789abcdef'' ! d"

function show_digits :: "int \<Rightarrow> string" where
  "show_digits n =
     (if n < 10 then [digit_char (nat n)]
      else show_digits (n div 10) @ [digit_char (nat (n mod 10))])"
  by pat_completeness auto
termination
  by (relation "measure nat") auto

declare show_digits.simps [simp del]

definition show_int :: "int \<Rightarrow> string" where
  "show_int i = (if i < 0 then CHR ''-'' # show_digits (- i) else show_digits i)"

fun join :: "string \<Rightarrow> string list \<Rightarrow> string" where
  "join sep [] = []"
| "join sep [x] = x"
| "join sep (x # y # ys) = x @ sep @ join sep (y # ys)"

text \<open>
  \<^verbatim>\<open>JSON.stringify\<close> quotes a string and escapes the quotation mark, the backslash and
  the control characters below U+0020.
\<close>

definition quote_char :: "char \<Rightarrow> string" where
  "quote_char c =
     (if c = CHR 0x22 then [CHR 0x5C, CHR 0x22]
      else if c = CHR 0x5C then [CHR 0x5C, CHR 0x5C]
      else if c = CHR 0x08 then [CHR 0x5C, CHR ''b'']
      else if c = CHR 0x0C then [CHR 0x5C, CHR ''f'']
      else if c = CHR 0x0A then [CHR 0x5C, CHR ''n'']
      else if c = CHR 0x0D then [CHR 0x5C, CHR ''r'']
      else if c = CHR 0x09 then [CHR 0x5C, CHR ''t'']
      else if (of_char c :: nat) < 32
        then [CHR 0x5C, CHR ''u'', CHR ''0'', CHR ''0'',
              digit_char (of_char c div 16), digit_char (of_char c mod 16)]
      else [c])"

definition quote :: "string \<Rightarrow> string" where
  "quote s = CHR 0x22 # concat (map quote_char s) @ [CHR 0x22]"

text \<open>
  The members of an object, once their values are serialised: a property whose value is
  \<^verbatim>\<open>undefined\<close> (serialised as \<open>None\<close>) is left out, the others appear in enumeration
  order.
\<close>

definition stringify_members :: "(string \<times> string option) list \<Rightarrow> string" where
  "stringify_members ms =
     CHR ''{'' # join '',''
       (concat (map (\<lambda>kv. case snd kv of None \<Rightarrow> [] | Some s \<Rightarrow> [quote (fst kv) @ '':'' @ s])
                    (own_entries ms)))
     @ ''}''"

fun stringify :: "jsval \<Rightarrow> string option" where
  "stringify JUndefined = None"
| "stringify JNull = Some ''null''"
| "stringify (JBool b) = Some (if b then ''true'' else ''false'')"
| "stringify (JNum n) = Some (show_int n)"
| "stringify (JStr s) = Some (quote s)"
| "stringify (JArr xs) =
     Some (CHR ''['' # join '','' (map (\<lambda>x. case stringify x of None \<Rightarrow> ''null'' | Some s \<Rightarrow> s) xs)
           @ '']'')"
| "stringify (JObj kvs) =
     Some (stringify_members (map (\<lambda>kv. (fst kv, stringify (snd kv))) kvs))"

text \<open>\<^verbatim>\<open>generateCacheKey(params) = JSON.stringify(params)\<close>, for the parameter object.\<close>

definition generateCacheKey :: "jsobj \<Rightarrow> string" where
  "generateCacheKey params = stringify_members (map (\<lambda>kv. (fst kv, stringify (snd kv))) params)"


section \<open>Effective search parameters\<close>

text \<open>
  The \<^verbatim>\<open>search_activities\<close> handler builds \<^verbatim>\<open>searchParams\<close> as an object literal of
  five computed properties followed by a spread of the caller's arguments. The five
  computed values are named here in the order of the literal.
\<close>

definition near_default :: "jsobj \<Rightarrow> jsobj \<Rightarrow> jsval" where
  "near_default prefs args =
     js_or (obj_get args ''near'') (obj_get prefs ''defaultLocation'')"

definition radius_default :: "jsobj \<Rightarrow> jsobj \<Rightarrow> jsval" where
  "radius_default prefs args =
     js_or (obj_get args ''radius'') (obj_get prefs ''defaultRadius'')"

definition exclude_children_default :: "jsobj \<Rightarrow> jsobj \<Rightarrow> jsval" where
  "exclude_children_default prefs args =
     (if obj_get args ''exclude_children'' \<noteq> JUndefined then obj_get args ''exclude_children''
      else obj_get prefs ''excludeChildren'')"

text \<open>\<^verbatim>\<open>Math.min(typeof args.per_page === 'number' ? args.per_page : 25, 50)\<close>\<close>

definition per_page_clamped :: "jsobj \<Rightarrow> int" where
  "per_page_clamped args =
     min (case obj_get args ''per_page'' of JNum n \<Rightarrow> n | _ \<Rightarrow> 25) 50"

definition current_page_default :: "jsobj \<Rightarrow> jsval" where
  "current_page_default args =
     (if typeof_number (obj_get args ''current_page'') then obj_get args ''current_page''
      else JNum 1)"

definition searchParams :: "jsobj \<Rightarrow> jsobj \<Rightarrow> jsobj" where
  "searchParams prefs args =
     obj_spread
       [(''near'', near_default prefs args),
        (''radius'', radius_default prefs args),
        (''exclude_children'', exclude_children_default prefs args),
        (''per_page'', JNum (per_page_clamped args)),
        (''current_page'', current_page_default args)]
       args"

text \<open>The preferences the server starts with, and returns to on reset.\<close>

definition initial_preferences :: jsobj where
  "initial_preferences =
     [(''defaultLocation'', JStr ''Vancouver,BC,CA''),
      (''defaultRadius'', JNum 25),
      (''favoriteCategories'', JArr []),
      (''excludeChildren'', JBool True)]"

text \<open>
  The five property names of the literal, and the effect that a run of writes has on a
  property already present: its value is replaced by the value written, if any.
\<close>

definition defaulted_fields :: "string list" where
  "defaulted_fields = [''near'', ''radius'', ''exclude_children'', ''per_page'', ''current_page'']"

definition overwrite :: "(string \<times> 'a) list \<Rightarrow> string \<times> 'a \<Rightarrow> string \<times> 'a" where
  "overwrite es kv = (fst kv, case map_of es (fst kv) of None \<Rightarrow> snd kv | Some v \<Rightarrow> v)"

text \<open>An object holds each of its property names once.\<close>

definition wf_obj :: "(string \<times> 'a) list \<Rightarrow> bool" where
  "wf_obj kvs = distinct (map fst kvs)"

section \<open>The first lines of the client's query\<close>

text \<open>
  \<^verbatim>\<open>searchActivities\<close> starts its query with \<^verbatim>\<open>per_page\<close> and \<^verbatim>\<open>current_page\<close>
  computed from the parameters it is given. \<^verbatim>\<open>Math.min\<close> is modelled
  on numbers; on any other argument JavaScript would first coerce it, and the model
  answers \<open>None\<close>.
\<close>

definition Math_min :: "jsval \<Rightarrow> jsval \<Rightarrow> jsval option" where
  "Math_min a b =
     (case a of
        JNum x \<Rightarrow> (case b of JNum y \<Rightarrow> Some (JNum (min x y)) | _ \<Rightarrow> None)
      | _ \<Rightarrow> None)"

definition query_per_page :: "jsobj \<Rightarrow> jsval option" where
  "query_per_page params = Math_min (js_or (obj_get params ''per_page'') (JNum 25)) (JNum 50)"

definition query_current_page :: "jsobj \<Rightarrow> jsval" where
  "query_current_page params = js_or (obj_get params ''current_page'') (JNum 1)"

section \<open>The search handler\<close>

text \<open>
  Errors that are thrown: an \<^verbatim>\<open>McpError\<close> with its code and message, or any other
  error object, such as a \<^verbatim>\<open>TypeError\<close>, given by its name.
\<close>

datatype ErrorCode = InvalidParams | InvalidRequest | InternalError

datatype thrown = McpError ErrorCode string | OtherError string

text \<open>
  The server's state, \<^verbatim>\<open>this.context\<close>, and the readings of the clock that one run
  of the handler takes, in the order in which it takes them.
\<close>

record SearchContext =
  recentSearches :: "search_record list"
  preferences :: jsobj
  cache :: cache

record clock =
  t_lookup :: int
  t_cache_time :: int
  t_store :: int
  t_sweep :: int
  t_history :: int
  t_reply :: int

text \<open>
  What the handler answers. Its reply text is the serialisation of an object assembled
  from the pieces kept here: the cached payload and the time of the hit
  (\<^verbatim>\<open>{...cached, _cached: true, _cacheTime}\<close>), or the fresh result, the effective
  parameters and the time (\<^verbatim>\<open>{...result, _searchParams, _timestamp}\<close>). A failure is the
  \<^verbatim>\<open>McpError(InternalError, `Search failed: ${error}`)\<close> raised by the handler's
  \<^verbatim>\<open>catch\<close>, kept with the error it wraps.
\<close>

datatype outcome = Cached jsval int | Fresh jsval jsobj int | SearchFailed thrown

text \<open>
  Reading \<^verbatim>\<open>result.total_results\<close>: a \<^verbatim>\<open>TypeError\<close> on \<^verbatim>\<open>null\<close> and \<^verbatim>\<open>undefined\<close>,
  the own property of an object, and \<^verbatim>\<open>undefined\<close> on every other value (no string,
  array, number or boolean has a member of the names read here).
\<close>

definition get_property :: "jsval \<Rightarrow> string \<Rightarrow> thrown + jsval" where
  "get_property v k =
     (case v of
        JUndefined \<Rightarrow> Inl (OtherError ''TypeError'')
      | JNull \<Rightarrow> Inl (OtherError ''TypeError'')
      | JObj kvs \<Rightarrow> Inr (obj_get kvs k)
      | _ \<Rightarrow> Inr JUndefined)"

text \<open>
  The \<^verbatim>\<open>search_activities\<close> case of the tool handler. The awaited call
  \<^verbatim>\<open>this.client.searchActivities(searchParams)\<close> is the argument \<open>client\<close>: it either
  throws or returns the upstream result.
\<close>

definition search_activities ::
  "(jsobj \<Rightarrow> thrown + jsval) \<Rightarrow> clock \<Rightarrow> SearchContext \<Rightarrow> jsobj \<Rightarrow> outcome \<times> SearchContext" where
  "search_activities client clk ctx args =
     (let params = searchParams (preferences ctx) args;
          useCache = (obj_get args ''use_cache'' \<noteq> JBool False);
          cacheKey = generateCacheKey params;
          looked = (if useCache then getCachedResult (cache ctx) cacheKey (t_lookup clk)
                    else (JNull, cache ctx));
          cached = fst looked;
          c1 = snd looked
      in if useCache \<and> truthy cached then (Cached cached (t_cache_time clk), ctx\<lparr>cache := c1\<rparr>)
         else
           (case client params of
              Inl e \<Rightarrow> (SearchFailed e, ctx\<lparr>cache := c1\<rparr>)
            | Inr result \<Rightarrow>
                (let c2 = (if useCache
                           then setCachedResult c1 cacheKey result None (t_store clk) (t_sweep clk)
                           else c1)
                 in case get_property result ''total_results'' of
                      Inl e \<Rightarrow> (SearchFailed e, ctx\<lparr>cache := c2\<rparr>)
                    | Inr n \<Rightarrow>
                        (Fresh result params (t_reply clk),
                         ctx\<lparr>cache := c2,
                             recentSearches :=
                               addToSearchHistory (recentSearches ctx) params
                                 (js_or n (JNum 0)) (t_history clk)\<rparr>))))"

text \<open>A client whose upstream call fails, and one that returns two results.\<close>

definition failing_client :: "jsobj \<Rightarrow> thrown + jsval" where
  "failing_client params =
     Inl (McpError InternalError
            ''Active Network API is temporarily unavailable. Please try again later.'')"

definition two_results_client :: "jsobj \<Rightarrow> thrown + jsval" where
  "two_results_client params =
     Inr (JObj [(''total_results'', JNum 2), (''results'', JArr [JStr ''A'', JStr ''B''])])"

section \<open>Errors of the client\<close>










section \<open>Search analytics\<close>












text \<open>A history record that carries the given category, and one for a given place.\<close>

definition with_category :: "string \<Rightarrow> search_record" where
  "with_category c = \<lparr>query = [(''category'', JStr c)], searched_at = 0, resultCount = JNum 0\<rparr>"


section \<open>Auxiliary facts about association lists\<close>

lemma map_of_obj_set: "map_of (obj_set kvs k v) = (map_of kvs)(k \<mapsto> v)"
  by (induction kvs) auto

lemma keys_obj_set:
  "map fst (obj_set kvs k v) = (if k \<in> set (map fst kvs) then map fst kvs else map fst kvs @ [k])"
  by (induction kvs) (auto simp: rev_image_eqI)

lemma distinct_obj_set: "distinct (map fst kvs) \<Longrightarrow> distinct (map fst (obj_set kvs k v))"
  by (simp add: keys_obj_set)

lemma foldl_Map_delete:
  "foldl Map_delete c ks = filter (\<lambda>kv. fst kv \<notin> set ks) c"
proof (induction ks arbitrary: c)
  case Nil
  show ?case by simp
next
  case (Cons k ks)
  have "foldl Map_delete c (k # ks) = filter (\<lambda>kv. fst kv \<notin> set ks) (Map_delete c k)"
    using Cons.IH by simp
  also have "\<dots> = filter (\<lambda>kv. fst kv \<notin> set (k # ks)) c"
    by (auto simp: Map_delete_def intro: filter_cong)
  finally show ?case .
qed

lemma cleanup_filter:
  assumes "wf_cache c"
  shows "cleanupExpiredCache c now = filter (\<lambda>kv. \<not> is_expired (snd kv) now) c"
proof -
  let ?D = "map fst (filter (\<lambda>kv. is_expired (snd kv) now) c)"
  have "\<And>kv. kv \<in> set c \<Longrightarrow> (fst kv \<notin> set ?D) = (\<not> is_expired (snd kv) now)"
  proof -
    fix kv assume kv: "kv \<in> set c"
    show "(fst kv \<notin> set ?D) = (\<not> is_expired (snd kv) now)"
    proof
      assume "fst kv \<notin> set ?D"
      then show "\<not> is_expired (snd kv) now" using kv by force
    next
      assume ne: "\<not> is_expired (snd kv) now"
      show "fst kv \<notin> set ?D"
      proof
        assume "fst kv \<in> set ?D"
        then obtain kv' where kv': "kv' \<in> set c" "is_expired (snd kv') now" "fst kv' = fst kv"
          by auto
        from assms kv kv'(1,3) have "kv' = kv"
          unfolding wf_cache_def by (metis eq_key_imp_eq_value prod.collapse)
        with kv'(2) ne show False by simp
      qed
    qed
  qed
  then have "filter (\<lambda>kv. fst kv \<notin> set ?D) c = filter (\<lambda>kv. \<not> is_expired (snd kv) now) c"
    by (intro filter_cong) auto
  then show ?thesis by (simp add: cleanupExpiredCache_def foldl_Map_delete)
qed

lemma map_of_filter_snd:
  "distinct (map fst c) \<Longrightarrow>
   map_of (filter (\<lambda>kv. P (snd kv)) c) k =
     (case map_of c k of None \<Rightarrow> None | Some e \<Rightarrow> if P e then Some e else None)"
proof (induction c)
  case Nil
  show ?case by simp
next
  case (Cons a c)
  then show ?case
    by (cases a) (auto split: option.splits dest: map_of_SomeD simp: rev_image_eqI)
qed

lemma Map_get_delete: "Map_get (Map_delete c k) k = None"
  by (simp add: Map_get_def Map_delete_def map_of_eq_None_iff image_iff)


lemma length_obj_set:
  "length (obj_set kvs k v) = (if k \<in> set (map fst kvs) then length kvs else Suc (length kvs))"
  using keys_obj_set [of kvs k v] by (metis length_map length_append_singleton)

lemma wf_cache_filter: "wf_cache c \<Longrightarrow> wf_cache (filter P c)"
  by (simp add: wf_cache_def distinct_map_filter)

lemma wf_cache_replicate:
  "wf_cache (map (\<lambda>i. (replicate i c, g i)) [0..<n])"
proof -
  have "inj_on (\<lambda>i. replicate i c) A" for A
    by (rule inj_onI) (metis length_replicate)
  then show ?thesis
    by (simp add: wf_cache_def comp_def distinct_map)
qed

section \<open>Auxiliary facts about objects and spread\<close>

lemma set_own_entries: "set (own_entries kvs) = set kvs"
  by (auto simp: own_entries_def)

lemma distinct_own_entries:
  assumes "distinct (map fst kvs)"
  shows "distinct (map fst (own_entries kvs))"
proof -
  from assms have d: "distinct kvs" and inj: "inj_on fst (set kvs)"
    by (simp_all add: distinct_map)
  have "distinct (own_entries kvs)"
    using d by (auto simp: own_entries_def)
  moreover have "inj_on fst (set (own_entries kvs))"
    using inj by (simp add: set_own_entries)
  ultimately show ?thesis by (simp add: distinct_map)
qed

lemma map_of_own_entries:
  "distinct (map fst kvs) \<Longrightarrow> map_of (own_entries kvs) = map_of kvs"
  using distinct_own_entries [of kvs] set_own_entries [of kvs]
  by (simp add: map_of_inject_set)

lemma map_of_foldl_obj_set:
  "map_of (foldl (\<lambda>acc kv. obj_set acc (fst kv) (snd kv)) B es) = map_of B ++ map_of (rev es)"
proof (induction es arbitrary: B)
  case Nil
  show ?case by simp
next
  case (Cons e es)
  have "map_of (foldl (\<lambda>acc kv. obj_set acc (fst kv) (snd kv)) B (e # es))
        = map_of (obj_set B (fst e) (snd e)) ++ map_of (rev es)"
    using Cons.IH [of "obj_set B (fst e) (snd e)"] by simp
  also have "\<dots> = (map_of B)(fst e \<mapsto> snd e) ++ map_of (rev es)"
    by (simp only: map_of_obj_set)
  also have "\<dots> = map_of B ++ map_of (rev (e # es))"
    by (cases e) (simp add: map_add_upd_left fun_eq_iff map_add_def split: option.splits)
  finally show ?case .
qed

lemma map_of_obj_spread:
  assumes "distinct (map fst src)"
  shows "map_of (obj_spread B src) = map_of B ++ map_of src"
proof -
  have "distinct (map fst (rev (own_entries src)))"
    using distinct_own_entries [OF assms] by (simp add: rev_map [symmetric])
  moreover have "set (rev (own_entries src)) = set src"
    by (simp add: set_own_entries)
  ultimately have "map_of (rev (own_entries src)) = map_of src"
    using assms by (simp add: map_of_inject_set)
  then show ?thesis by (simp add: obj_spread_def map_of_foldl_obj_set)
qed

lemma obj_get_searchParams:
  assumes "wf_obj args"
  shows "obj_get (searchParams prefs args) k =
     (if has_own args k then obj_get args k
      else obj_get
       [(''near'', near_default prefs args),
        (''radius'', radius_default prefs args),
        (''exclude_children'', exclude_children_default prefs args),
        (''per_page'', JNum (per_page_clamped args)),
        (''current_page'', current_page_default args)] k)"
  using assms unfolding searchParams_def obj_get_def has_own_def wf_obj_def
  by (simp only: map_of_obj_spread map_add_def split: option.splits) auto

lemma obj_get_absent: "\<not> has_own args k \<Longrightarrow> obj_get args k = JUndefined"
  by (simp add: has_own_def obj_get_def)

lemma obj_set_absent: "k \<notin> fst ` set B \<Longrightarrow> obj_set B k v = B @ [(k, v)]"
  by (induction B) auto

lemma obj_set_present:
  "distinct (map fst B) \<Longrightarrow> k \<in> fst ` set B \<Longrightarrow>
   obj_set B k v = map (\<lambda>kv. if fst kv = k then (k, v) else kv) B"
proof (induction B)
  case Nil
  then show ?case by simp
next
  case (Cons a B)
  show ?case
  proof (cases "fst a = k")
    case True
    then have "k \<notin> fst ` set B" using Cons.prems(1) by auto
    then have "map (\<lambda>kv. if fst kv = k then (k, v) else kv) B = B"
      by (intro map_idI) auto
    with True show ?thesis by (cases a) simp
  next
    case False
    with Cons show ?thesis by (cases a) auto
  qed
qed

lemma foldl_obj_set_shape:
  "distinct (map fst es) \<Longrightarrow> distinct (map fst B) \<Longrightarrow>
   foldl (\<lambda>acc kv. obj_set acc (fst kv) (snd kv)) B es
     = map (overwrite es) B @ filter (\<lambda>kv. fst kv \<notin> fst ` set B) es"
proof (induction es arbitrary: B)
  case Nil
  show ?case by (simp add: overwrite_def)
next
  case (Cons e es)
  obtain k v where e: "e = (k, v)" by (cases e)
  have kes: "k \<notin> fst ` set es" and des: "distinct (map fst es)"
    using Cons.prems(1) e by auto
  then have nk: "map_of es k = None" by (simp add: map_of_eq_None_iff)
  let ?B' = "obj_set B k v"
  have dB': "distinct (map fst ?B')" using Cons.prems(2) by (rule distinct_obj_set)
  have step: "foldl (\<lambda>acc kv. obj_set acc (fst kv) (snd kv)) B (e # es)
      = map (overwrite es) ?B' @ filter (\<lambda>kv. fst kv \<notin> fst ` set ?B') es"
    using Cons.IH [OF des dB'] e by simp
  show ?case
  proof (cases "k \<in> fst ` set B")
    case True
    have B': "?B' = map (\<lambda>kv. if fst kv = k then (k, v) else kv) B"
      using Cons.prems(2) True by (rule obj_set_present)
    have keys: "fst ` set ?B' = fst ` set B"
      using True by (simp add: keys_obj_set [of B k v] flip: set_map)
    have "map (overwrite es) ?B' = map (overwrite (e # es)) B"
      unfolding B' using nk e by (auto simp: overwrite_def)
    moreover have "filter (\<lambda>kv. fst kv \<notin> fst ` set ?B') es
        = filter (\<lambda>kv. fst kv \<notin> fst ` set B) (e # es)"
      using True e keys by simp
    ultimately show ?thesis using step by simp
  next
    case False
    have B': "?B' = B @ [(k, v)]" using False by (rule obj_set_absent)
    have "map (overwrite es) ?B' = map (overwrite (e # es)) B @ [(k, v)]"
    proof -
      have "map (overwrite es) B = map (overwrite (e # es)) B"
        using False e by (intro map_cong) (auto simp: overwrite_def)
      then show ?thesis unfolding B' using nk by (simp add: overwrite_def)
    qed
    moreover have "filter (\<lambda>kv. fst kv \<notin> fst ` set ?B') es
        = filter (\<lambda>kv. fst kv \<notin> fst ` set B) es"
      unfolding B' using kes by (intro filter_cong) auto
    ultimately show ?thesis using step False e by simp
  qed
qed

lemma searchParams_shape:
  assumes wf: "wf_obj args"
  shows "searchParams prefs args =
     map (overwrite (own_entries args))
       [(''near'', near_default prefs args),
        (''radius'', radius_default prefs args),
        (''exclude_children'', exclude_children_default prefs args),
        (''per_page'', JNum (per_page_clamped args)),
        (''current_page'', current_page_default args)]
     @ filter (\<lambda>kv. fst kv \<notin> set defaulted_fields) (own_entries args)"
proof -
  have d: "distinct (map fst (own_entries args))"
    using wf unfolding wf_obj_def by (rule distinct_own_entries)
  show ?thesis
    unfolding searchParams_def obj_spread_def
    by (subst foldl_obj_set_shape [OF d]) (simp_all add: defaulted_fields_def)
qed

lemma query_per_page_searchParams:
  assumes wf: "wf_obj args"
  shows "obj_get args ''per_page'' = JNum n \<Longrightarrow>
           query_per_page (searchParams prefs args) = Some (JNum (min (if n = 0 then 25 else n) 50))"
    and "\<not> has_own args ''per_page'' \<Longrightarrow>
           query_per_page (searchParams prefs args) = Some (JNum 25)"
proof -
  note g = obj_get_searchParams [OF wf, of prefs "''per_page''"]
  show "query_per_page (searchParams prefs args) = Some (JNum (min (if n = 0 then 25 else n) 50))"
    if "obj_get args ''per_page'' = JNum n"
  proof -
    from that have "has_own args ''per_page''"
      by (auto simp: has_own_def obj_get_def split: option.splits)
    with g that have "obj_get (searchParams prefs args) ''per_page'' = JNum n" by simp
    then show ?thesis by (simp add: query_per_page_def js_or_def Math_min_def)
  qed
  show "query_per_page (searchParams prefs args) = Some (JNum 25)"
    if "\<not> has_own args ''per_page''"
  proof -
    from g that have "obj_get (searchParams prefs args) ''per_page'' = JNum 25"
      by (simp add: obj_get_absent per_page_clamped_def) (simp add: obj_get_def)
    then show ?thesis by (simp add: query_per_page_def js_or_def Math_min_def)
  qed
qed

section \<open>Auxiliary facts about the cache lookup\<close>

lemma getCachedResult_cases:
  "snd (getCachedResult c k now) = c \<or> snd (getCachedResult c k now) = Map_delete c k"
  by (simp add: getCachedResult_def split: option.splits)

lemma getCachedResult_keeps_fresh:
  "(case Map_get c k of None \<Rightarrow> True | Some en \<Rightarrow> \<not> is_expired en now) \<Longrightarrow>
   snd (getCachedResult c k now) = c"
  by (simp add: getCachedResult_def split: option.splits)

section \<open>Auxiliary facts about substrings and frequency counts\<close>













section \<open>The history is a bounded queue\<close>

lemma addToSearchHistory_drop:
  "addToSearchHistory rs q n now = drop (length rs + 1 - 100) (rs @ [new_record q n now])"
  by (simp add: addToSearchHistory_def slice_last_def Let_def)

lemma addToSearchHistory_length: "length (addToSearchHistory rs q n now) \<le> 100"
  by (simp add: addToSearchHistory_drop)

lemma record_all_drop:
  "length rs \<le> 100 \<Longrightarrow>
   record_all rs es = drop (length rs + length es - 100) (rs @ map record_of es)"
proof (induction es arbitrary: rs)
  case Nil
  then show ?case by (simp add: record_all_def)
next
  case (Cons e es)
  let ?r = "record_of e"
  let ?h = "addToSearchHistory rs (fst e) (fst (snd e)) (snd (snd e))"
  have h: "?h = drop (length rs + 1 - 100) (rs @ [?r])"
    by (simp add: addToSearchHistory_drop record_of_def)
  have len: "length ?h \<le> 100" by (rule addToSearchHistory_length)
  have "record_all rs (e # es) = record_all ?h es"
    by (simp add: record_all_def)
  also have "\<dots> = drop (length ?h + length es - 100) (?h @ map record_of es)"
    using Cons.IH [OF len] .
  also have "\<dots> = drop (length rs + length (e # es) - 100) (rs @ map record_of (e # es))"
  proof (cases "length rs + 1 \<le> 100")
    case True
    then show ?thesis by (simp add: h)
  next
    case False
    then have d: "length rs = 100" using Cons.prems by simp
    have "drop (length ?h + length es - 100) (?h @ map record_of es)
          = drop (length es) (drop 1 (rs @ [?r]) @ map record_of es)"
      by (simp add: h d)
    also have "\<dots> = drop (length es) (drop 1 ((rs @ [?r]) @ map record_of es))"
      using d by simp
    also have "\<dots> = drop (length es + 1) (rs @ ?r # map record_of es)"
      by (simp del: drop_append)
    finally have step: "drop (length ?h + length es - 100) (?h @ map record_of es)
          = drop (length es + 1) (rs @ ?r # map record_of es)" .
    have idx: "length rs + length (e # es) - 100 = length es + 1" using d by simp
    have lst: "rs @ map record_of (e # es) = rs @ ?r # map record_of es" by simp
    show ?thesis unfolding idx lst by (rule step)
  qed
  finally show ?case .
qed

text \<open>
  Claim C6. After every \<^verbatim>\<open>addToSearchHistory\<close> the log holds at most 100 records and
  the new record is its last element; the result is the old log with the new record
  appended, minus as many of the oldest records as exceed the cap. Recording a run of
  searches into an empty log leaves the last 100 of them in insertion order; for a run
  of 150 these are all but the first 50.
\<close>

theorem history_bounded_fifo:
  "length (addToSearchHistory rs q n now) \<le> 100
   \<and> last (addToSearchHistory rs q n now) = new_record q n now
   \<and> addToSearchHistory rs q n now = drop (length rs + 1 - 100) (rs @ [new_record q n now])
   \<and> record_all [] es = drop (length es - 100) (map record_of es)
   \<and> (length es = 150 \<longrightarrow> record_all [] es = drop 50 (map record_of es))"
proof -
  have tail: "last (addToSearchHistory rs q n now) = new_record q n now"
    by (simp add: addToSearchHistory_drop)
  have run: "record_all [] es = drop (length es - 100) (map record_of es)"
    using record_all_drop [of "[]" es] by simp
  then have "length es = 150 \<longrightarrow> record_all [] es = drop 50 (map record_of es)"
    by simp
  with tail run show ?thesis
    using addToSearchHistory_length [of rs q n now] addToSearchHistory_drop [of rs q n now]
    by blast
qed

theorem history_bounded_fifo_witness:
  "length (map (\<lambda>i. ([(''query'', JStr ''yoga'')], JNum (int i), int i)) [0..<150]) = 150
   \<and> record_all [] (map (\<lambda>i. ([(''query'', JStr ''yoga'')], JNum (int i), int i)) [0..<150])
       = drop 50 (map record_of (map (\<lambda>i. ([(''query'', JStr ''yoga'')], JNum (int i), int i)) [0..<150]))
   \<and> map resultCount (record_all [] (map (\<lambda>i. ([(''query'', JStr ''yoga'')], JNum (int i), int i)) [0..<150]))
       = map (\<lambda>i. JNum (int i)) [50..<150]"
proof -
  let ?es = "map (\<lambda>i. ([(''query'', JStr ''yoga'')], JNum (int i), int i)) [0..<150]"
  have len: "length ?es = 150" by simp
  from history_bounded_fifo [where es = ?es] len
  have run: "record_all [] ?es = drop 50 (map record_of ?es)" by blast
  have "map resultCount (drop 50 (map record_of ?es)) = map (\<lambda>i. JNum (int i)) [50..<150]"
    by (simp add: drop_map record_of_def new_record_def comp_def)
  with len run show ?thesis by simp
qed

section \<open>Cache freshness\<close>

text \<open>
  Claim C3. Let an entry be stored for key \<open>k\<close> with payload \<open>v\<close> and time-to-live \<open>T\<close>
  at clock reading \<open>stored_at\<close>, and let the clock not run backwards between the store,
  the sweep that the store may trigger and the later read. A read at \<open>now\<close> with
  \<open>now - stored_at \<le> T\<close> returns \<open>v\<close> and leaves the cache as it is. A read with
  \<open>now - stored_at > T\<close> returns \<^verbatim>\<open>null\<close> (a miss) and the key is absent afterwards.
  In any cache, an entry that is expired at the time of the read is answered by a miss
  and deleted, never returned.
\<close>

theorem cache_freshness:
  assumes wf: "wf_cache c" and mono: "stored_at \<le> sweep_at" "sweep_at \<le> now"
  shows "(now - stored_at \<le> T \<longrightarrow>
            getCachedResult (setCachedResult c k v (Some T) stored_at sweep_at) k now
              = (v, setCachedResult c k v (Some T) stored_at sweep_at))
       \<and> (now - stored_at > T \<longrightarrow>
            fst (getCachedResult (setCachedResult c k v (Some T) stored_at sweep_at) k now) = JNull
            \<and> Map_get (snd (getCachedResult (setCachedResult c k v (Some T) stored_at sweep_at) k now)) k = None)
       \<and> (\<forall>c' e. Map_get c' k = Some e \<and> now - timestamp e > ttl e \<longrightarrow>
            getCachedResult c' k now = (JNull, Map_delete c' k))"
proof -
  let ?e = "\<lparr>data = v, timestamp = stored_at, ttl = T\<rparr>"
  let ?c1 = "Map_set c k ?e"
  let ?c2 = "setCachedResult c k v (Some T) stored_at sweep_at"
  have wf1: "distinct (map fst ?c1)"
    using wf by (simp add: wf_cache_def Map_set_def distinct_obj_set)
  have get1: "map_of ?c1 k = Some ?e"
    by (simp add: Map_set_def map_of_obj_set)
  have c2: "?c2 = (if length ?c1 > 100 then filter (\<lambda>kv. \<not> is_expired (snd kv) sweep_at) ?c1 else ?c1)"
    using wf1 by (simp add: setCachedResult_def default_ttl_def Map_size_def Let_def cleanup_filter wf_cache_def)
  have get2: "Map_get ?c2 k = (if length ?c1 > 100 \<and> is_expired ?e sweep_at then None else Some ?e)"
    unfolding c2 Map_get_def using wf1 get1
    by (simp add: map_of_filter_snd [where P = "\<lambda>e. \<not> is_expired e sweep_at"])
  have fresh: "now - stored_at \<le> T \<Longrightarrow> getCachedResult ?c2 k now = (v, ?c2)"
  proof -
    assume a: "now - stored_at \<le> T"
    then have "\<not> is_expired ?e sweep_at" "\<not> is_expired ?e now"
      using mono by (simp_all add: is_expired_def)
    then show ?thesis using get2 by (simp add: getCachedResult_def)
  qed
  have stale: "now - stored_at > T \<Longrightarrow>
      fst (getCachedResult ?c2 k now) = JNull \<and> Map_get (snd (getCachedResult ?c2 k now)) k = None"
  proof -
    assume a: "now - stored_at > T"
    then have ex: "is_expired ?e now" by (simp add: is_expired_def)
    show ?thesis
    proof (cases "Map_get ?c2 k")
      case None
      then show ?thesis by (simp add: getCachedResult_def)
    next
      case (Some e)
      then have "e = ?e" using get2 by (simp split: if_splits)
      then show ?thesis using Some ex by (simp add: getCachedResult_def Map_get_delete)
    qed
  qed
  have never: "\<forall>c' e. Map_get c' k = Some e \<and> now - timestamp e > ttl e \<longrightarrow>
            getCachedResult c' k now = (JNull, Map_delete c' k)"
    by (simp add: getCachedResult_def is_expired_def)
  from fresh stale never show ?thesis by blast
qed


theorem cache_freshness_witness:
  "wf_cache [] \<and> (0::int) \<le> 0 \<and> (0::int) \<le> 999 \<and> (999::int) - 0 \<le> 1000
   \<and> getCachedResult (setCachedResult [] ''q'' (JStr ''payload'') (Some 1000) 0 0) ''q'' 999
       = (JStr ''payload'', setCachedResult [] ''q'' (JStr ''payload'') (Some 1000) 0 0)
   \<and> (0::int) \<le> 1001 \<and> (1001::int) - 0 > 1000
   \<and> fst (getCachedResult (setCachedResult [] ''q'' (JStr ''payload'') (Some 1000) 0 0) ''q'' 1001) = JNull
   \<and> Map_get (snd (getCachedResult (setCachedResult [] ''q'' (JStr ''payload'') (Some 1000) 0 0) ''q'' 1001)) ''q'' = None
   \<and> Map_get [(''q'', \<lparr>data = JNum 7, timestamp = 0, ttl = 10\<rparr>)] ''q'' = Some \<lparr>data = JNum 7, timestamp = 0, ttl = 10\<rparr>
   \<and> getCachedResult [(''q'', \<lparr>data = JNum 7, timestamp = 0, ttl = 10\<rparr>)] ''q'' 11 = (JNull, [])"
proof -
  have wf: "wf_cache []" by (simp add: wf_cache_def)
  have a: "(0::int) \<le> 0" and b: "(0::int) \<le> 999" and c: "(0::int) \<le> 1001" by simp_all
  note f1 = cache_freshness [OF wf a b, where T = 1000 and k = "''q''" and v = "JStr ''payload''"]
  note f2 = cache_freshness [OF wf a c, where T = 1000 and k = "''q''" and v = "JStr ''payload''"]
  have g: "Map_get [(''q'', \<lparr>data = JNum 7, timestamp = 0, ttl = 10\<rparr>)] ''q'' = Some \<lparr>data = JNum 7, timestamp = 0, ttl = 10\<rparr>"
    by (simp add: Map_get_def)
  have d: "Map_delete [(''q'', \<lparr>data = JNum 7, timestamp = 0, ttl = 10\<rparr>)] ''q'' = []"
    by (simp add: Map_delete_def)
  from f1 have h1: "getCachedResult (setCachedResult [] ''q'' (JStr ''payload'') (Some 1000) 0 0) ''q'' 999
       = (JStr ''payload'', setCachedResult [] ''q'' (JStr ''payload'') (Some 1000) 0 0)" by simp
  from f2 have h2: "fst (getCachedResult (setCachedResult [] ''q'' (JStr ''payload'') (Some 1000) 0 0) ''q'' 1001) = JNull
   \<and> Map_get (snd (getCachedResult (setCachedResult [] ''q'' (JStr ''payload'') (Some 1000) 0 0) ''q'' 1001)) ''q'' = None" by simp
  have c3: "(0::int) \<le> 11" by simp
  note f3 = cache_freshness [OF wf a c3, where T = 1000 and k = "''q''" and v = "JStr ''payload''"]
  from f3 have "\<forall>c' e. Map_get c' ''q'' = Some e \<and> 11 - timestamp e > ttl e \<longrightarrow>
            getCachedResult c' ''q'' 11 = (JNull, Map_delete c' ''q'')" by blast
  with g have h3: "getCachedResult [(''q'', \<lparr>data = JNum 7, timestamp = 0, ttl = 10\<rparr>)] ''q'' 11
      = (JNull, Map_delete [(''q'', \<lparr>data = JNum 7, timestamp = 0, ttl = 10\<rparr>)] ''q'')"
    by simp
  show ?thesis using wf h1 h2 g h3 d by simp
qed

section \<open>Storing into the cache\<close>

text \<open>
  Claim C7. \<^verbatim>\<open>setCachedResult\<close> writes the entry under its key, replacing the one that
  was there and leaving every other key alone, with a time-to-live of 300000 ms (five
  minutes) when none is given. If the cache then holds more than 100 entries, the result
  is the cache without every entry that is expired at the time of the sweep, whatever
  their number, and with every unexpired entry kept in place; otherwise nothing is
  removed.
\<close>

theorem put_with_sweep:
  assumes wf: "wf_cache c"
  shows "setCachedResult c k v t stored_at sweep_at =
           (if Map_size (Map_set c k \<lparr>data = v, timestamp = stored_at, ttl = default_ttl t\<rparr>) > 100
            then filter (\<lambda>kv. \<not> is_expired (snd kv) sweep_at)
                   (Map_set c k \<lparr>data = v, timestamp = stored_at, ttl = default_ttl t\<rparr>)
            else Map_set c k \<lparr>data = v, timestamp = stored_at, ttl = default_ttl t\<rparr>)
       \<and> default_ttl None = 300000
       \<and> Map_get (Map_set c k e) k = Some e
       \<and> (\<forall>k'. k' \<noteq> k \<longrightarrow> Map_get (Map_set c k e) k' = Map_get c k')
       \<and> Map_size (Map_set c k e) = (if Map_get c k = None then Map_size c + 1 else Map_size c)
       \<and> (\<forall>k'. Map_get (filter (\<lambda>kv. \<not> is_expired (snd kv) sweep_at) (Map_set c k e)) k' =
              (case Map_get (Map_set c k e) k' of
                 None \<Rightarrow> None
               | Some x \<Rightarrow> if is_expired x sweep_at then None else Some x))
       \<and> wf_cache (setCachedResult c k v t stored_at sweep_at)"
proof -
  let ?e = "\<lparr>data = v, timestamp = stored_at, ttl = default_ttl t\<rparr>"
  have wf1: "\<And>x. wf_cache (Map_set c k x)"
    using wf by (simp add: wf_cache_def Map_set_def distinct_obj_set)
  have put: "setCachedResult c k v t stored_at sweep_at =
           (if Map_size (Map_set c k ?e) > 100
            then filter (\<lambda>kv. \<not> is_expired (snd kv) sweep_at) (Map_set c k ?e)
            else Map_set c k ?e)"
    by (simp add: setCachedResult_def Let_def cleanup_filter [OF wf1])
  have dflt: "default_ttl None = 300000" by (simp add: default_ttl_def)
  have over: "Map_get (Map_set c k e) k = Some e"
    by (simp add: Map_get_def Map_set_def map_of_obj_set)
  have other: "\<forall>k'. k' \<noteq> k \<longrightarrow> Map_get (Map_set c k e) k' = Map_get c k'"
    by (simp add: Map_get_def Map_set_def map_of_obj_set)
  have size: "Map_size (Map_set c k e) = (if Map_get c k = None then Map_size c + 1 else Map_size c)"
    by (simp add: Map_size_def Map_set_def Map_get_def length_obj_set map_of_eq_None_iff)
  have sweep: "\<forall>k'. Map_get (filter (\<lambda>kv. \<not> is_expired (snd kv) sweep_at) (Map_set c k e)) k' =
              (case Map_get (Map_set c k e) k' of
                 None \<Rightarrow> None
               | Some x \<Rightarrow> if is_expired x sweep_at then None else Some x)"
    using wf1 [of e] unfolding Map_get_def wf_cache_def
    by (simp add: map_of_filter_snd [where P = "\<lambda>e. \<not> is_expired e sweep_at"] split: option.splits)
  have wf2: "wf_cache (setCachedResult c k v t stored_at sweep_at)"
    unfolding put using wf1 by (simp add: wf_cache_filter)
  from put dflt over other size sweep wf2 show ?thesis by blast
qed

theorem put_with_sweep_witness:
  "wf_cache (map (\<lambda>i. (replicate i CHR ''a'', \<lparr>data = JNum (int i), timestamp = int i, ttl = 50\<rparr>)) [0..<100])
   \<and> map fst (setCachedResult
         (map (\<lambda>i. (replicate i CHR ''a'', \<lparr>data = JNum (int i), timestamp = int i, ttl = 50\<rparr>)) [0..<100])
         ''new'' JNull None 100 100)
       = map (\<lambda>i. replicate i CHR ''a'') [50..<100] @ [''new'']
   \<and> Map_get (setCachedResult
         (map (\<lambda>i. (replicate i CHR ''a'', \<lparr>data = JNum (int i), timestamp = int i, ttl = 50\<rparr>)) [0..<100])
         ''new'' JNull None 100 100) ''new''
       = Some \<lparr>data = JNull, timestamp = 100, ttl = 300000\<rparr>"
proof -
  let ?c = "map (\<lambda>i. (replicate i CHR ''a'', \<lparr>data = JNum (int i), timestamp = int i, ttl = 50\<rparr>)) [0..<100]"
  let ?e = "\<lparr>data = JNull, timestamp = 100, ttl = default_ttl None\<rparr>"
  have wf: "wf_cache ?c" by (rule wf_cache_replicate)
  note inst = put_with_sweep [OF wf, where k = "''new''" and v = JNull and t = None
      and stored_at = 100 and sweep_at = 100]
  from inst have eq: "setCachedResult ?c ''new'' JNull None 100 100 =
      (if Map_size (Map_set ?c ''new'' ?e) > 100
       then filter (\<lambda>kv. \<not> is_expired (snd kv) 100) (Map_set ?c ''new'' ?e)
       else Map_set ?c ''new'' ?e)" by blast
  have keys: "map fst (if Map_size (Map_set ?c ''new'' ?e) > 100
       then filter (\<lambda>kv. \<not> is_expired (snd kv) 100) (Map_set ?c ''new'' ?e)
       else Map_set ?c ''new'' ?e) = map (\<lambda>i. replicate i CHR ''a'') [50..<100] @ [''new'']"
    by code_simp
  have new: "Map_get (if Map_size (Map_set ?c ''new'' ?e) > 100
       then filter (\<lambda>kv. \<not> is_expired (snd kv) 100) (Map_set ?c ''new'' ?e)
       else Map_set ?c ''new'' ?e) ''new'' = Some \<lparr>data = JNull, timestamp = 100, ttl = 300000\<rparr>"
    by code_simp
  show ?thesis using wf keys new unfolding eq by blast
qed

section \<open>Defaults of the effective parameters\<close>

text \<open>
  Claim C4. For a caller's argument object and any preferences, the effective parameters
  carry the caller's own value of \<^verbatim>\<open>near\<close>, \<^verbatim>\<open>radius\<close>, \<^verbatim>\<open>exclude_children\<close>,
  \<^verbatim>\<open>per_page\<close> and \<^verbatim>\<open>current_page\<close> whenever the caller supplied the field, and
  otherwise the default location, the default radius, the preference's child-exclusion
  flag, 25 and 1. An explicit \<^verbatim>\<open>exclude_children: false\<close> is kept. The query for yoga
  under the Austin preferences yields the six fields of the specification's example.
\<close>

theorem defaults_only_for_absent:
  assumes "wf_obj args"
  shows "obj_get (searchParams prefs args) ''near'' =
           (if has_own args ''near'' then obj_get args ''near''
            else obj_get prefs ''defaultLocation'')
       \<and> obj_get (searchParams prefs args) ''radius'' =
           (if has_own args ''radius'' then obj_get args ''radius''
            else obj_get prefs ''defaultRadius'')
       \<and> obj_get (searchParams prefs args) ''exclude_children'' =
           (if has_own args ''exclude_children'' then obj_get args ''exclude_children''
            else obj_get prefs ''excludeChildren'')
       \<and> obj_get (searchParams prefs args) ''per_page'' =
           (if has_own args ''per_page'' then obj_get args ''per_page'' else JNum 25)
       \<and> obj_get (searchParams prefs args) ''current_page'' =
           (if has_own args ''current_page'' then obj_get args ''current_page'' else JNum 1)
       \<and> searchParams
            [(''defaultLocation'', JStr ''Austin,TX,US''), (''defaultRadius'', JNum 10),
             (''excludeChildren'', JBool True)]
            [(''query'', JStr ''yoga'')]
           = [(''near'', JStr ''Austin,TX,US''), (''radius'', JNum 10),
              (''exclude_children'', JBool True), (''per_page'', JNum 25),
              (''current_page'', JNum 1), (''query'', JStr ''yoga'')]
       \<and> obj_get (searchParams [(''excludeChildren'', JBool True)]
                     [(''exclude_children'', JBool False)]) ''exclude_children'' = JBool False"
proof -
  note g = obj_get_searchParams [OF assms, of prefs]
  have n: "obj_get (searchParams prefs args) ''near'' =
           (if has_own args ''near'' then obj_get args ''near''
            else obj_get prefs ''defaultLocation'')"
    by (simp add: g [of "''near''"] obj_get_absent near_default_def js_or_def)
       (simp add: obj_get_def)
  have r: "obj_get (searchParams prefs args) ''radius'' =
           (if has_own args ''radius'' then obj_get args ''radius''
            else obj_get prefs ''defaultRadius'')"
    by (simp add: g [of "''radius''"] obj_get_absent radius_default_def js_or_def)
       (simp add: obj_get_def)
  have x: "obj_get (searchParams prefs args) ''exclude_children'' =
           (if has_own args ''exclude_children'' then obj_get args ''exclude_children''
            else obj_get prefs ''excludeChildren'')"
    by (simp add: g [of "''exclude_children''"] obj_get_absent exclude_children_default_def)
       (simp add: obj_get_def)
  have p: "obj_get (searchParams prefs args) ''per_page'' =
           (if has_own args ''per_page'' then obj_get args ''per_page'' else JNum 25)"
    by (simp add: g [of "''per_page''"] obj_get_absent per_page_clamped_def)
       (simp add: obj_get_def)
  have c: "obj_get (searchParams prefs args) ''current_page'' =
           (if has_own args ''current_page'' then obj_get args ''current_page'' else JNum 1)"
    by (simp add: g [of "''current_page''"] obj_get_absent current_page_default_def typeof_number_def)
       (simp add: obj_get_def)
  have y: "searchParams
            [(''defaultLocation'', JStr ''Austin,TX,US''), (''defaultRadius'', JNum 10),
             (''excludeChildren'', JBool True)]
            [(''query'', JStr ''yoga'')]
           = [(''near'', JStr ''Austin,TX,US''), (''radius'', JNum 10),
              (''exclude_children'', JBool True), (''per_page'', JNum 25),
              (''current_page'', JNum 1), (''query'', JStr ''yoga'')]"
    by code_simp
  have f: "obj_get (searchParams [(''excludeChildren'', JBool True)]
                     [(''exclude_children'', JBool False)]) ''exclude_children'' = JBool False"
    by code_simp
  from n r x p c y f show ?thesis by blast
qed

theorem defaults_only_for_absent_witness:
  "wf_obj [(''query'', JStr ''yoga''), (''exclude_children'', JBool False)]
   \<and> obj_get (searchParams initial_preferences
                 [(''query'', JStr ''yoga''), (''exclude_children'', JBool False)]) ''near''
       = JStr ''Vancouver,BC,CA''
   \<and> obj_get (searchParams initial_preferences
                 [(''query'', JStr ''yoga''), (''exclude_children'', JBool False)]) ''exclude_children''
       = JBool False
   \<and> obj_get (searchParams initial_preferences
                 [(''query'', JStr ''yoga''), (''exclude_children'', JBool False)]) ''per_page''
       = JNum 25"
proof -
  have wf: "wf_obj [(''query'', JStr ''yoga''), (''exclude_children'', JBool False)]"
    by (simp add: wf_obj_def)
  from defaults_only_for_absent [OF wf, of initial_preferences] wf show ?thesis
    by (simp add: has_own_def obj_get_def initial_preferences_def)
qed

section \<open>Page size\<close>

text \<open>
  Claim C2, as stated, fails: the effective page size for a caller's 0 is 0, outside
  [1, 50], and for a caller's 500 it is 500.
\<close>

theorem page_size_counterexample:
  "obj_get (searchParams initial_preferences [(''per_page'', JNum 0)]) ''per_page'' = JNum 0
   \<and> obj_get (searchParams initial_preferences [(''per_page'', JNum 500)]) ''per_page'' = JNum 500"
  by code_simp

text \<open>
  Claim C2, amended. The page size that normalization computes, \<open>per_page_clamped\<close>, is
  the caller's numeric value capped at 50 and 25 when the caller gave no number; it has
  no lower bound. When the caller supplies no \<^verbatim>\<open>per_page\<close> the effective value is 25,
  and when the caller supplies no \<^verbatim>\<open>current_page\<close> the effective page, and the page
  the client asks for, is 1. The page
  size that the client puts into the upstream query for a caller whose \<^verbatim>\<open>per_page\<close> is
  a number or absent is at most 50: a caller's 500 is sent as 50, and a caller's 0 as 25.
\<close>

theorem page_size_upper_clamp:
  assumes "wf_obj args"
  shows "per_page_clamped args \<le> 50
       \<and> (\<forall>n. obj_get args ''per_page'' = JNum n \<longrightarrow> per_page_clamped args = min n 50)
       \<and> (\<not> typeof_number (obj_get args ''per_page'') \<longrightarrow> per_page_clamped args = 25)
       \<and> (\<not> has_own args ''per_page'' \<longrightarrow>
             obj_get (searchParams prefs args) ''per_page'' = JNum 25)
       \<and> (\<not> has_own args ''current_page'' \<longrightarrow>
             obj_get (searchParams prefs args) ''current_page'' = JNum 1
             \<and> query_current_page (searchParams prefs args) = JNum 1)
       \<and> (\<forall>n. obj_get args ''per_page'' = JNum n \<longrightarrow>
             query_per_page (searchParams prefs args)
               = Some (JNum (min (if n = 0 then 25 else n) 50)))
       \<and> (\<not> has_own args ''per_page'' \<longrightarrow>
             query_per_page (searchParams prefs args) = Some (JNum 25))
       \<and> (typeof_number (obj_get args ''per_page'') \<or> \<not> has_own args ''per_page'' \<longrightarrow>
             (\<exists>m. query_per_page (searchParams prefs args) = Some (JNum m) \<and> m \<le> 50))"
proof -
  have a: "per_page_clamped args \<le> 50" by (simp add: per_page_clamped_def)
  have b: "\<forall>n. obj_get args ''per_page'' = JNum n \<longrightarrow> per_page_clamped args = min n 50"
    by (simp add: per_page_clamped_def)
  have c: "\<not> typeof_number (obj_get args ''per_page'') \<longrightarrow> per_page_clamped args = 25"
    by (simp add: per_page_clamped_def typeof_number_def split: jsval.splits)
  have d: "\<not> has_own args ''per_page'' \<longrightarrow>
             obj_get (searchParams prefs args) ''per_page'' = JNum 25"
    using obj_get_searchParams [OF assms, of prefs "''per_page''"]
    by (simp add: obj_get_absent per_page_clamped_def) (simp add: obj_get_def)
  have e0: "\<not> has_own args ''current_page'' \<longrightarrow>
             obj_get (searchParams prefs args) ''current_page'' = JNum 1"
    using obj_get_searchParams [OF assms, of prefs "''current_page''"]
    by (simp add: obj_get_absent current_page_default_def typeof_number_def) (simp add: obj_get_def)
  then have e: "\<not> has_own args ''current_page'' \<longrightarrow>
             obj_get (searchParams prefs args) ''current_page'' = JNum 1
             \<and> query_current_page (searchParams prefs args) = JNum 1"
    by (simp add: query_current_page_def js_or_def)
  have f: "\<forall>n. obj_get args ''per_page'' = JNum n \<longrightarrow>
             query_per_page (searchParams prefs args)
               = Some (JNum (min (if n = 0 then 25 else n) 50))"
    using query_per_page_searchParams(1) [OF assms] by blast
  have g: "\<not> has_own args ''per_page'' \<longrightarrow>
             query_per_page (searchParams prefs args) = Some (JNum 25)"
    using query_per_page_searchParams(2) [OF assms] by blast
  have h: "typeof_number (obj_get args ''per_page'') \<or> \<not> has_own args ''per_page'' \<longrightarrow>
             (\<exists>m. query_per_page (searchParams prefs args) = Some (JNum m) \<and> m \<le> 50)"
  proof
    assume "typeof_number (obj_get args ''per_page'') \<or> \<not> has_own args ''per_page''"
    then show "\<exists>m. query_per_page (searchParams prefs args) = Some (JNum m) \<and> m \<le> 50"
    proof
      assume "typeof_number (obj_get args ''per_page'')"
      then obtain n where "obj_get args ''per_page'' = JNum n"
        by (auto simp: typeof_number_def split: jsval.splits)
      with f have "query_per_page (searchParams prefs args)
               = Some (JNum (min (if n = 0 then 25 else n) 50))" by blast
      then show ?thesis by simp
    next
      assume "\<not> has_own args ''per_page''"
      with g show ?thesis by simp
    qed
  qed
  from a b c d e f g h show ?thesis by blast
qed

theorem page_size_upper_clamp_witness:
  "wf_obj [(''per_page'', JNum 500)] \<and> wf_obj [(''per_page'', JNum 0)] \<and> wf_obj [(''query'', JStr ''yoga'')]
   \<and> per_page_clamped [(''per_page'', JNum 500)] = 50
   \<and> per_page_clamped [(''per_page'', JNum 0)] = 0
   \<and> query_per_page (searchParams initial_preferences [(''per_page'', JNum 500)]) = Some (JNum 50)
   \<and> query_per_page (searchParams initial_preferences [(''per_page'', JNum 0)]) = Some (JNum 25)
   \<and> obj_get (searchParams initial_preferences [(''query'', JStr ''yoga'')]) ''per_page'' = JNum 25
   \<and> obj_get (searchParams initial_preferences [(''query'', JStr ''yoga'')]) ''current_page'' = JNum 1"
proof -
  have w1: "wf_obj [(''per_page'', JNum 500)]" and w2: "wf_obj [(''per_page'', JNum 0)]"
    and w3: "wf_obj [(''query'', JStr ''yoga'')]"
    by (simp_all add: wf_obj_def)
  have g1: "obj_get [(''per_page'', JNum 500)] ''per_page'' = JNum 500"
    and g2: "obj_get [(''per_page'', JNum 0)] ''per_page'' = JNum 0"
    and g3: "\<not> has_own [(''query'', JStr ''yoga'')] ''per_page''"
    and g4: "\<not> has_own [(''query'', JStr ''yoga'')] ''current_page''"
    by (simp_all add: obj_get_def has_own_def)
  from page_size_upper_clamp [OF w1, of initial_preferences] g1
  have a: "per_page_clamped [(''per_page'', JNum 500)] = 50
      \<and> query_per_page (searchParams initial_preferences [(''per_page'', JNum 500)]) = Some (JNum 50)"
    by simp
  from page_size_upper_clamp [OF w2, of initial_preferences] g2
  have b: "per_page_clamped [(''per_page'', JNum 0)] = 0
      \<and> query_per_page (searchParams initial_preferences [(''per_page'', JNum 0)]) = Some (JNum 25)"
    by simp
  from page_size_upper_clamp [OF w3, of initial_preferences] g3 g4
  have c: "obj_get (searchParams initial_preferences [(''query'', JStr ''yoga'')]) ''per_page'' = JNum 25
      \<and> obj_get (searchParams initial_preferences [(''query'', JStr ''yoga'')]) ''current_page'' = JNum 1"
    by blast
  from w1 w2 w3 a b c show ?thesis by blast
qed

section \<open>The cache key and the order of fields\<close>

text \<open>
  Claim C1, as stated, fails: two calls whose effective parameters hold the same
  field-value pairs, supplied in different orders, get different keys.
\<close>

theorem cache_key_order_counterexample:
  "set (searchParams initial_preferences [(''query'', JStr ''yoga''), (''category'', JStr ''event'')])
     = set (searchParams initial_preferences [(''category'', JStr ''event''), (''query'', JStr ''yoga'')])
   \<and> generateCacheKey (searchParams initial_preferences
          [(''query'', JStr ''yoga''), (''category'', JStr ''event'')])
     \<noteq> generateCacheKey (searchParams initial_preferences
          [(''category'', JStr ''event''), (''query'', JStr ''yoga'')])"
proof -
  have "generateCacheKey (searchParams initial_preferences
          [(''query'', JStr ''yoga''), (''category'', JStr ''event'')])
     \<noteq> generateCacheKey (searchParams initial_preferences
          [(''category'', JStr ''event''), (''query'', JStr ''yoga'')])"
    by code_simp
  moreover have "searchParams initial_preferences [(''query'', JStr ''yoga''), (''category'', JStr ''event'')]
     = [(''near'', JStr ''Vancouver,BC,CA''), (''radius'', JNum 25), (''exclude_children'', JBool True),
        (''per_page'', JNum 25), (''current_page'', JNum 1),
        (''query'', JStr ''yoga''), (''category'', JStr ''event'')]"
    by code_simp
  moreover have "searchParams initial_preferences [(''category'', JStr ''event''), (''query'', JStr ''yoga'')]
     = [(''near'', JStr ''Vancouver,BC,CA''), (''radius'', JNum 25), (''exclude_children'', JBool True),
        (''per_page'', JNum 25), (''current_page'', JNum 1),
        (''category'', JStr ''event''), (''query'', JStr ''yoga'')]"
    by code_simp
  ultimately show ?thesis by auto
qed

text \<open>
  Claim C1, amended. The cache key is a function of the effective parameters in their
  enumeration order. The five defaulted fields come first in a fixed order, so the key
  depends on the caller's arguments only through the values given for those five fields
  and through the sequence, in enumeration order, of the caller's remaining fields: two
  argument objects that agree on both have the same effective parameters and the same key,
  wherever the caller wrote the five.
\<close>

theorem cache_key_order:
  assumes wa: "wf_obj a" and wb: "wf_obj b"
    and five: "map (map_of a) defaulted_fields = map (map_of b) defaulted_fields"
    and rest: "filter (\<lambda>kv. fst kv \<notin> set defaulted_fields) (own_entries a)
             = filter (\<lambda>kv. fst kv \<notin> set defaulted_fields) (own_entries b)"
  shows "searchParams prefs a = searchParams prefs b
       \<and> generateCacheKey (searchParams prefs a) = generateCacheKey (searchParams prefs b)"
proof -
  have m: "map_of a k = map_of b k" if "k \<in> set defaulted_fields" for k
    using five that by (auto simp: defaulted_fields_def)
  have g: "obj_get a k = obj_get b k" if "k \<in> set defaulted_fields" for k
    using m [OF that] by (simp add: obj_get_def)
  have o: "overwrite (own_entries a) (k, x) = overwrite (own_entries b) (k, x)"
    if "k \<in> set defaulted_fields" for k x
    using m [OF that] wa wb by (simp add: overwrite_def map_of_own_entries wf_obj_def)
  have lit: "near_default prefs a = near_default prefs b"
      "radius_default prefs a = radius_default prefs b"
      "exclude_children_default prefs a = exclude_children_default prefs b"
      "per_page_clamped a = per_page_clamped b"
      "current_page_default a = current_page_default b"
    using g by (simp_all add: near_default_def radius_default_def exclude_children_default_def
        per_page_clamped_def current_page_default_def defaulted_fields_def)
  have "searchParams prefs a = searchParams prefs b"
    unfolding searchParams_shape [OF wa] searchParams_shape [OF wb]
    using rest lit o by (simp add: defaulted_fields_def)
  then show ?thesis by simp
qed

theorem cache_key_order_witness:
  "wf_obj [(''near'', JStr ''Austin,TX,US''), (''query'', JStr ''yoga''), (''per_page'', JNum 10)]
   \<and> wf_obj [(''per_page'', JNum 10), (''query'', JStr ''yoga''), (''near'', JStr ''Austin,TX,US'')]
   \<and> generateCacheKey (searchParams initial_preferences
        [(''near'', JStr ''Austin,TX,US''), (''query'', JStr ''yoga''), (''per_page'', JNum 10)])
     = generateCacheKey (searchParams initial_preferences
        [(''per_page'', JNum 10), (''query'', JStr ''yoga''), (''near'', JStr ''Austin,TX,US'')])"
proof -
  let ?a = "[(''near'', JStr ''Austin,TX,US''), (''query'', JStr ''yoga''), (''per_page'', JNum 10)]"
  let ?b = "[(''per_page'', JNum 10), (''query'', JStr ''yoga''), (''near'', JStr ''Austin,TX,US'')]"
  have wa: "wf_obj ?a" and wb: "wf_obj ?b" by (simp_all add: wf_obj_def)
  have five: "map (map_of ?a) defaulted_fields = map (map_of ?b) defaulted_fields"
    by (simp add: defaulted_fields_def)
  have rest: "filter (\<lambda>kv. fst kv \<notin> set defaulted_fields) (own_entries ?a)
             = filter (\<lambda>kv. fst kv \<notin> set defaulted_fields) (own_entries ?b)"
    by code_simp
  from cache_key_order [OF wa wb five rest, of initial_preferences] wa wb show ?thesis by blast
qed

section \<open>A failed upstream call\<close>

text \<open>
  Claim C5, as stated, fails: with an expired entry under the derived key, a search whose
  upstream call fails leaves the cache without that entry, so the cache map is not
  unchanged.
\<close>

theorem search_failure_counterexample:
  "cache (snd (search_activities failing_client
        \<lparr>t_lookup = 300001, t_cache_time = 300001, t_store = 300002, t_sweep = 300002,
           t_history = 300002, t_reply = 300002\<rparr>
        \<lparr>recentSearches = [], preferences = initial_preferences,
           cache = [(generateCacheKey (searchParams initial_preferences []),
                     \<lparr>data = JObj [], timestamp = 0, ttl = 300000\<rparr>)]\<rparr>
        [])) = []
   \<and> cache \<lparr>recentSearches = [], preferences = initial_preferences,
           cache = [(generateCacheKey (searchParams initial_preferences []),
                     \<lparr>data = JObj [], timestamp = 0, ttl = 300000\<rparr>)]\<rparr> \<noteq> []
   \<and> fst (search_activities failing_client
        \<lparr>t_lookup = 300001, t_cache_time = 300001, t_store = 300002, t_sweep = 300002,
           t_history = 300002, t_reply = 300002\<rparr>
        \<lparr>recentSearches = [], preferences = initial_preferences,
           cache = [(generateCacheKey (searchParams initial_preferences []),
                     \<lparr>data = JObj [], timestamp = 0, ttl = 300000\<rparr>)]\<rparr>
        [])
      = SearchFailed (McpError InternalError
            ''Active Network API is temporarily unavailable. Please try again later.'')"
  by (simp add: search_activities_def Let_def obj_get_def getCachedResult_def Map_get_def
      Map_delete_def is_expired_def failing_client_def)

text \<open>
  Claim C5, amended. When the upstream call of a search fails, no cache entry is stored
  and no history record is appended: the history and the preferences are unchanged, and
  the cache is either unchanged or has lost the entry under the derived key. Every entry
  of the cache afterwards was there before. If the derived key has no entry or a fresh
  one, or if the caller switched the cache off, the whole state is unchanged. If the
  cache is on and the entry under the derived key is expired at the time of the lookup,
  the lookup deletes it before the upstream call: the cache afterwards is the cache
  before without that key, and the search fails with the upstream error.
\<close>

theorem search_failure_frame:
  assumes fails: "client (searchParams (preferences ctx) args) = Inl e"
  shows "recentSearches (snd (search_activities client clk ctx args)) = recentSearches ctx
       \<and> preferences (snd (search_activities client clk ctx args)) = preferences ctx
       \<and> (cache (snd (search_activities client clk ctx args)) = cache ctx
          \<or> cache (snd (search_activities client clk ctx args))
              = Map_delete (cache ctx) (generateCacheKey (searchParams (preferences ctx) args)))
       \<and> set (cache (snd (search_activities client clk ctx args))) \<subseteq> set (cache ctx)
       \<and> ((case Map_get (cache ctx) (generateCacheKey (searchParams (preferences ctx) args)) of
              None \<Rightarrow> True | Some en \<Rightarrow> \<not> is_expired en (t_lookup clk))
            \<longrightarrow> snd (search_activities client clk ctx args) = ctx)
       \<and> (obj_get args ''use_cache'' = JBool False
            \<longrightarrow> snd (search_activities client clk ctx args) = ctx)
       \<and> (\<forall>en. obj_get args ''use_cache'' \<noteq> JBool False
              \<and> Map_get (cache ctx) (generateCacheKey (searchParams (preferences ctx) args)) = Some en
              \<and> is_expired en (t_lookup clk)
            \<longrightarrow> cache (snd (search_activities client clk ctx args))
                  = Map_delete (cache ctx) (generateCacheKey (searchParams (preferences ctx) args))
                \<and> Map_get (cache (snd (search_activities client clk ctx args)))
                     (generateCacheKey (searchParams (preferences ctx) args)) = None
                \<and> fst (search_activities client clk ctx args) = SearchFailed e)"
proof -
  let ?key = "generateCacheKey (searchParams (preferences ctx) args)"
  let ?R = "search_activities client clk ctx args"
  let ?c1 = "if obj_get args ''use_cache'' \<noteq> JBool False
             then snd (getCachedResult (cache ctx) ?key (t_lookup clk)) else cache ctx"
  have R: "snd ?R = ctx\<lparr>cache := ?c1\<rparr>"
    using fails by (simp add: search_activities_def Let_def)
  have c1: "?c1 = cache ctx \<or> ?c1 = Map_delete (cache ctx) ?key"
    using getCachedResult_cases [of "cache ctx" ?key "t_lookup clk"] by auto
  have sub: "set ?c1 \<subseteq> set (cache ctx)"
    using c1 by (auto simp: Map_delete_def)
  have fresh: "(case Map_get (cache ctx) ?key of None \<Rightarrow> True
                | Some en \<Rightarrow> \<not> is_expired en (t_lookup clk)) \<longrightarrow> snd ?R = ctx"
    unfolding R by (auto simp: getCachedResult_keeps_fresh)
  have off: "obj_get args ''use_cache'' = JBool False \<longrightarrow> snd ?R = ctx"
    unfolding R by simp
  have purge: "\<forall>en. obj_get args ''use_cache'' \<noteq> JBool False
              \<and> Map_get (cache ctx) ?key = Some en \<and> is_expired en (t_lookup clk)
            \<longrightarrow> cache (snd ?R) = Map_delete (cache ctx) ?key
                \<and> Map_get (cache (snd ?R)) ?key = None
                \<and> fst ?R = SearchFailed e"
  proof (intro allI impI)
    fix en
    assume a: "obj_get args ''use_cache'' \<noteq> JBool False
              \<and> Map_get (cache ctx) ?key = Some en \<and> is_expired en (t_lookup clk)"
    then have g: "getCachedResult (cache ctx) ?key (t_lookup clk) = (JNull, Map_delete (cache ctx) ?key)"
      by (simp add: getCachedResult_def)
    have c: "cache (snd ?R) = Map_delete (cache ctx) ?key"
      unfolding R using a g by simp
    have f: "fst ?R = SearchFailed e"
      using a g fails by (simp add: search_activities_def Let_def)
    from c f show "cache (snd ?R) = Map_delete (cache ctx) ?key
                \<and> Map_get (cache (snd ?R)) ?key = None
                \<and> fst ?R = SearchFailed e"
      by (simp add: Map_get_delete)
  qed
  have first: "recentSearches (snd ?R) = recentSearches ctx"
      "preferences (snd ?R) = preferences ctx"
      "cache (snd ?R) = cache ctx \<or> cache (snd ?R) = Map_delete (cache ctx) ?key"
      "set (cache (snd ?R)) \<subseteq> set (cache ctx)"
    using R c1 sub by simp_all
  from first fresh off purge show ?thesis by (intro conjI)
qed

theorem search_failure_frame_witness:
  "failing_client (searchParams (preferences
       \<lparr>recentSearches = [with_category ''yoga''], preferences = initial_preferences, cache = []\<rparr>)
       [(''query'', JStr ''yoga'')])
     = Inl (McpError InternalError
            ''Active Network API is temporarily unavailable. Please try again later.'')
   \<and> snd (search_activities failing_client
        \<lparr>t_lookup = 1, t_cache_time = 1, t_store = 2, t_sweep = 2, t_history = 2, t_reply = 2\<rparr>
        \<lparr>recentSearches = [with_category ''yoga''], preferences = initial_preferences, cache = []\<rparr>
        [(''query'', JStr ''yoga'')])
     = \<lparr>recentSearches = [with_category ''yoga''], preferences = initial_preferences, cache = []\<rparr>
   \<and> obj_get [] ''use_cache'' \<noteq> JBool False
   \<and> Map_get [(generateCacheKey (searchParams initial_preferences []),
                \<lparr>data = JObj [], timestamp = 0, ttl = 300000\<rparr>)]
        (generateCacheKey (searchParams initial_preferences []))
       = Some \<lparr>data = JObj [], timestamp = 0, ttl = 300000\<rparr>
   \<and> is_expired \<lparr>data = JObj [], timestamp = 0, ttl = 300000\<rparr> 300001
   \<and> cache (snd (search_activities failing_client
        \<lparr>t_lookup = 300001, t_cache_time = 300001, t_store = 300002, t_sweep = 300002,
           t_history = 300002, t_reply = 300002\<rparr>
        \<lparr>recentSearches = [with_category ''yoga''], preferences = initial_preferences,
           cache = [(generateCacheKey (searchParams initial_preferences []),
                     \<lparr>data = JObj [], timestamp = 0, ttl = 300000\<rparr>)]\<rparr>
        [])) = []
   \<and> recentSearches (snd (search_activities failing_client
        \<lparr>t_lookup = 300001, t_cache_time = 300001, t_store = 300002, t_sweep = 300002,
           t_history = 300002, t_reply = 300002\<rparr>
        \<lparr>recentSearches = [with_category ''yoga''], preferences = initial_preferences,
           cache = [(generateCacheKey (searchParams initial_preferences []),
                     \<lparr>data = JObj [], timestamp = 0, ttl = 300000\<rparr>)]\<rparr>
        [])) = [with_category ''yoga'']"
proof -
  let ?ctx = "\<lparr>recentSearches = [with_category ''yoga''], preferences = initial_preferences,
                cache = []\<rparr>"
  let ?en = "\<lparr>data = JObj [], timestamp = 0, ttl = 300000\<rparr>"
  let ?key = "generateCacheKey (searchParams initial_preferences [])"
  let ?ctx2 = "\<lparr>recentSearches = [with_category ''yoga''], preferences = initial_preferences,
                cache = [(?key, ?en)]\<rparr>"
  let ?clk2 = "\<lparr>t_lookup = 300001, t_cache_time = 300001, t_store = 300002, t_sweep = 300002,
           t_history = 300002, t_reply = 300002\<rparr>"
  have f: "failing_client (searchParams (preferences ?ctx) [(''query'', JStr ''yoga'')])
     = Inl (McpError InternalError
            ''Active Network API is temporarily unavailable. Please try again later.'')"
    by (simp add: failing_client_def)
  from search_failure_frame [where client = failing_client and ctx = ?ctx
      and args = "[(''query'', JStr ''yoga'')]"
      and clk = "\<lparr>t_lookup = 1, t_cache_time = 1, t_store = 2, t_sweep = 2, t_history = 2, t_reply = 2\<rparr>",
      OF f]
  have a: "snd (search_activities failing_client
        \<lparr>t_lookup = 1, t_cache_time = 1, t_store = 2, t_sweep = 2, t_history = 2, t_reply = 2\<rparr>
        ?ctx [(''query'', JStr ''yoga'')]) = ?ctx"
    by (simp add: Map_get_def)
  have f2: "failing_client (searchParams (preferences ?ctx2) [])
     = Inl (McpError InternalError
            ''Active Network API is temporarily unavailable. Please try again later.'')"
    by (simp add: failing_client_def)
  have on: "obj_get [] ''use_cache'' \<noteq> JBool False" by (simp add: obj_get_def)
  have g: "Map_get [(?key, ?en)] ?key = Some ?en" by (simp add: Map_get_def)
  have x: "is_expired ?en 300001" by (simp add: is_expired_def)
  note inst = search_failure_frame [where client = failing_client and ctx = ?ctx2
      and args = "[]" and clk = ?clk2, OF f2]
  from inst have h: "recentSearches (snd (search_activities failing_client ?clk2 ?ctx2 []))
      = [with_category ''yoga'']" by simp
  from inst have "\<forall>en. obj_get [] ''use_cache'' \<noteq> JBool False
              \<and> Map_get (cache ?ctx2) (generateCacheKey (searchParams (preferences ?ctx2) [])) = Some en
              \<and> is_expired en (t_lookup ?clk2)
            \<longrightarrow> cache (snd (search_activities failing_client ?clk2 ?ctx2 []))
                  = Map_delete (cache ?ctx2) (generateCacheKey (searchParams (preferences ?ctx2) []))"
    by blast
  with on g x have "cache (snd (search_activities failing_client ?clk2 ?ctx2 []))
      = Map_delete [(?key, ?en)] ?key" by simp
  then have d: "cache (snd (search_activities failing_client ?clk2 ?ctx2 [])) = []"
    by (simp add: Map_delete_def)
  from f a on g x d h show ?thesis by (intro conjI) simp_all
qed

section \<open>Bypassing the cache\<close>

text \<open>
  Claim C10. When the caller passes \<^verbatim>\<open>use_cache: false\<close>, the cache after the search is
  the cache before it, whatever the upstream call does, and the answer is never a cached
  payload, even if a fresh entry exists for the derived key. If the upstream call fails,
  nothing changes at all. If it returns a result (the client never returns \<^verbatim>\<open>null\<close> or
  \<^verbatim>\<open>undefined\<close>), the answer is that fresh result and the history is the old one with a
  record of the effective parameters and the result count appended.
\<close>

theorem cache_bypass:
  assumes off: "obj_get args ''use_cache'' = JBool False"
  shows "cache (snd (search_activities client clk ctx args)) = cache ctx
       \<and> preferences (snd (search_activities client clk ctx args)) = preferences ctx
       \<and> (\<forall>v t. fst (search_activities client clk ctx args) \<noteq> Cached v t)
       \<and> (\<forall>e. client (searchParams (preferences ctx) args) = Inl e \<longrightarrow>
             search_activities client clk ctx args = (SearchFailed e, ctx))
       \<and> (\<forall>r. client (searchParams (preferences ctx) args) = Inr r \<and> r \<noteq> JNull \<and> r \<noteq> JUndefined \<longrightarrow>
             fst (search_activities client clk ctx args)
               = Fresh r (searchParams (preferences ctx) args) (t_reply clk)
             \<and> (\<exists>n. get_property r ''total_results'' = Inr n
                  \<and> recentSearches (snd (search_activities client clk ctx args))
                      = addToSearchHistory (recentSearches ctx) (searchParams (preferences ctx) args)
                          (js_or n (JNum 0)) (t_history clk))
             \<and> last (recentSearches (snd (search_activities client clk ctx args)))
                 = new_record (searchParams (preferences ctx) args)
                     (resultCount (last (recentSearches (snd (search_activities client clk ctx args)))))
                     (t_history clk))"
proof -
  let ?sp = "searchParams (preferences ctx) args"
  let ?R = "search_activities client clk ctx args"
  have a: "cache (snd ?R) = cache ctx" "preferences (snd ?R) = preferences ctx"
    using off by (simp_all add: search_activities_def Let_def split: sum.splits)
  have b: "\<forall>v t. fst ?R \<noteq> Cached v t"
    using off by (simp add: search_activities_def Let_def split: sum.splits)
  have c: "\<forall>e. client ?sp = Inl e \<longrightarrow> ?R = (SearchFailed e, ctx)"
    using off by (simp add: search_activities_def Let_def)
  have d: "fst ?R = Fresh r ?sp (t_reply clk)
           \<and> (\<exists>n. get_property r ''total_results'' = Inr n
                  \<and> recentSearches (snd ?R)
                      = addToSearchHistory (recentSearches ctx) ?sp (js_or n (JNum 0)) (t_history clk))
           \<and> last (recentSearches (snd ?R))
                 = new_record ?sp (resultCount (last (recentSearches (snd ?R)))) (t_history clk)"
    if ok: "client ?sp = Inr r" and nn: "r \<noteq> JNull" "r \<noteq> JUndefined" for r
  proof -
    obtain n where n: "get_property r ''total_results'' = Inr n"
      using nn by (cases r) (simp_all add: get_property_def)
    have R: "?R = (Fresh r ?sp (t_reply clk),
                   ctx\<lparr>cache := cache ctx,
                       recentSearches := addToSearchHistory (recentSearches ctx) ?sp
                                           (js_or n (JNum 0)) (t_history clk)\<rparr>)"
      using off ok n by (simp add: search_activities_def Let_def)
    have l: "last (addToSearchHistory (recentSearches ctx) ?sp (js_or n (JNum 0)) (t_history clk))
             = new_record ?sp (js_or n (JNum 0)) (t_history clk)"
      by (simp add: addToSearchHistory_drop)
    show ?thesis using n l by (simp add: R new_record_def)
  qed
  from a b c d show ?thesis by blast
qed

theorem cache_bypass_witness:
  "obj_get [(''query'', JStr ''yoga''), (''use_cache'', JBool False)] ''use_cache'' = JBool False
   \<and> two_results_client (searchParams initial_preferences
        [(''query'', JStr ''yoga''), (''use_cache'', JBool False)])
       = Inr (JObj [(''total_results'', JNum 2), (''results'', JArr [JStr ''A'', JStr ''B''])])
   \<and> fst (getCachedResult
        [(generateCacheKey (searchParams initial_preferences
             [(''query'', JStr ''yoga''), (''use_cache'', JBool False)]),
          \<lparr>data = JObj [(''total_results'', JNum 9)], timestamp = 0, ttl = 300000\<rparr>)]
        (generateCacheKey (searchParams initial_preferences
             [(''query'', JStr ''yoga''), (''use_cache'', JBool False)])) 10)
       = JObj [(''total_results'', JNum 9)]
   \<and> fst (search_activities two_results_client
        \<lparr>t_lookup = 10, t_cache_time = 10, t_store = 11, t_sweep = 11, t_history = 12, t_reply = 13\<rparr>
        \<lparr>recentSearches = [], preferences = initial_preferences,
           cache = [(generateCacheKey (searchParams initial_preferences
                       [(''query'', JStr ''yoga''), (''use_cache'', JBool False)]),
                     \<lparr>data = JObj [(''total_results'', JNum 9)], timestamp = 0, ttl = 300000\<rparr>)]\<rparr>
        [(''query'', JStr ''yoga''), (''use_cache'', JBool False)])
       = Fresh (JObj [(''total_results'', JNum 2), (''results'', JArr [JStr ''A'', JStr ''B''])])
           (searchParams initial_preferences [(''query'', JStr ''yoga''), (''use_cache'', JBool False)]) 13
   \<and> cache (snd (search_activities two_results_client
        \<lparr>t_lookup = 10, t_cache_time = 10, t_store = 11, t_sweep = 11, t_history = 12, t_reply = 13\<rparr>
        \<lparr>recentSearches = [], preferences = initial_preferences,
           cache = [(generateCacheKey (searchParams initial_preferences
                       [(''query'', JStr ''yoga''), (''use_cache'', JBool False)]),
                     \<lparr>data = JObj [(''total_results'', JNum 9)], timestamp = 0, ttl = 300000\<rparr>)]\<rparr>
        [(''query'', JStr ''yoga''), (''use_cache'', JBool False)]))
       = [(generateCacheKey (searchParams initial_preferences
                       [(''query'', JStr ''yoga''), (''use_cache'', JBool False)]),
           \<lparr>data = JObj [(''total_results'', JNum 9)], timestamp = 0, ttl = 300000\<rparr>)]
   \<and> map resultCount (recentSearches (snd (search_activities two_results_client
        \<lparr>t_lookup = 10, t_cache_time = 10, t_store = 11, t_sweep = 11, t_history = 12, t_reply = 13\<rparr>
        \<lparr>recentSearches = [], preferences = initial_preferences,
           cache = [(generateCacheKey (searchParams initial_preferences
                       [(''query'', JStr ''yoga''), (''use_cache'', JBool False)]),
                     \<lparr>data = JObj [(''total_results'', JNum 9)], timestamp = 0, ttl = 300000\<rparr>)]\<rparr>
        [(''query'', JStr ''yoga''), (''use_cache'', JBool False)])))
       = [JNum 2]"
proof -
  let ?args = "[(''query'', JStr ''yoga''), (''use_cache'', JBool False)]"
  let ?r = "JObj [(''total_results'', JNum 2), (''results'', JArr [JStr ''A'', JStr ''B''])]"
  let ?c = "[(generateCacheKey (searchParams initial_preferences ?args),
              \<lparr>data = JObj [(''total_results'', JNum 9)], timestamp = 0, ttl = 300000\<rparr>)]"
  let ?ctx = "\<lparr>recentSearches = [], preferences = initial_preferences, cache = ?c\<rparr>"
  let ?clk = "\<lparr>t_lookup = 10, t_cache_time = 10, t_store = 11, t_sweep = 11, t_history = 12, t_reply = 13\<rparr>"
  have off: "obj_get ?args ''use_cache'' = JBool False" by (simp add: obj_get_def)
  have ok: "two_results_client (searchParams (preferences ?ctx) ?args) = Inr ?r"
    by (simp add: two_results_client_def)
  have hit: "fst (getCachedResult ?c (generateCacheKey (searchParams initial_preferences ?args)) 10)
       = JObj [(''total_results'', JNum 9)]"
    by (simp add: getCachedResult_def Map_get_def is_expired_def)
  have n: "get_property ?r ''total_results'' = Inr (JNum 2)"
    by (simp add: get_property_def obj_get_def)
  note inst = cache_bypass [OF off, where client = two_results_client and ctx = ?ctx and clk = ?clk]
  from inst ok have fresh: "fst (search_activities two_results_client ?clk ?ctx ?args)
       = Fresh ?r (searchParams (preferences ?ctx) ?args) (t_reply ?clk)"
    by blast
  from inst have keep: "cache (snd (search_activities two_results_client ?clk ?ctx ?args)) = cache ?ctx"
    by blast
  from inst ok obtain m where m: "get_property ?r ''total_results'' = Inr m"
      "recentSearches (snd (search_activities two_results_client ?clk ?ctx ?args))
          = addToSearchHistory (recentSearches ?ctx) (searchParams (preferences ?ctx) ?args)
              (js_or m (JNum 0)) (t_history ?clk)"
    by blast
  from m(1) n have "m = JNum 2" by simp
  with m(2) have hist: "map resultCount (recentSearches (snd (search_activities two_results_client ?clk ?ctx ?args)))
       = [JNum 2]"
    by (simp add: addToSearchHistory_def new_record_def js_or_def Let_def slice_last_def)
  from off ok hit fresh keep hist show ?thesis by simp
qed

section \<open>Mapping of upstream errors\<close>




section \<open>Top categories and locations\<close>




end
